theory Spec2Isabelle
  imports Complex_Main
begin

section \<open>Array values\<close>

text \<open>
  The notebook computes on float64 arrays.  A value is a finite number, one of the two
  infinities, or NaN (the marker of a missing sample).  Finite values are carried as exact
  reals: rounding, overflow to infinity and the sign of zero are not represented, the
  special values are.
\<close>

datatype npfloat = Fin real | PInf | NInf | NaN

datatype py_error = TypeError | ValueError | LinAlgError

fun isnan :: "npfloat \<Rightarrow> bool" where
  "isnan NaN = True"
| "isnan (Fin _) = False"
| "isnan PInf = False"
| "isnan NInf = False"

fun isfinite :: "npfloat \<Rightarrow> bool" where
  "isfinite (Fin _) = True"
| "isfinite PInf = False"
| "isfinite NInf = False"
| "isfinite NaN = False"

fun the_fin :: "npfloat \<Rightarrow> real" where
  "the_fin (Fin r) = r"
| "the_fin PInf = 0"
| "the_fin NInf = 0"
| "the_fin NaN = 0"

text \<open>Addition: NaN is absorbing, opposite infinities give NaN.\<close>

fun np_add :: "npfloat \<Rightarrow> npfloat \<Rightarrow> npfloat" where
  "np_add NaN _ = NaN"
| "np_add (Fin a) NaN = NaN"
| "np_add PInf NaN = NaN"
| "np_add NInf NaN = NaN"
| "np_add (Fin a) (Fin b) = Fin (a + b)"
| "np_add (Fin a) PInf = PInf"
| "np_add (Fin a) NInf = NInf"
| "np_add PInf (Fin b) = PInf"
| "np_add NInf (Fin b) = NInf"
| "np_add PInf PInf = PInf"
| "np_add NInf NInf = NInf"
| "np_add PInf NInf = NaN"
| "np_add NInf PInf = NaN"

text \<open>Multiplication: an infinity times zero is NaN, otherwise the signs multiply.\<close>

definition signed_inf :: "bool \<Rightarrow> npfloat" where
  "signed_inf positive = (if positive then PInf else NInf)"

fun np_mul :: "npfloat \<Rightarrow> npfloat \<Rightarrow> npfloat" where
  "np_mul NaN _ = NaN"
| "np_mul (Fin a) NaN = NaN"
| "np_mul PInf NaN = NaN"
| "np_mul NInf NaN = NaN"
| "np_mul (Fin a) (Fin b) = Fin (a * b)"
| "np_mul (Fin a) PInf = (if a = 0 then NaN else signed_inf (0 < a))"
| "np_mul (Fin a) NInf = (if a = 0 then NaN else signed_inf (a < 0))"
| "np_mul PInf (Fin b) = (if b = 0 then NaN else signed_inf (0 < b))"
| "np_mul NInf (Fin b) = (if b = 0 then NaN else signed_inf (b < 0))"
| "np_mul PInf PInf = PInf"
| "np_mul NInf NInf = PInf"
| "np_mul PInf NInf = NInf"
| "np_mul NInf PInf = NInf"

text \<open>
  Division of arrays never raises: a zero divisor gives an infinity, or NaN for 0/0.
  The divisor zero is taken as positive zero.
\<close>

fun np_div :: "npfloat \<Rightarrow> npfloat \<Rightarrow> npfloat" where
  "np_div NaN _ = NaN"
| "np_div (Fin a) NaN = NaN"
| "np_div PInf NaN = NaN"
| "np_div NInf NaN = NaN"
| "np_div (Fin a) (Fin b) =
     (if b \<noteq> 0 then Fin (a / b) else if a = 0 then NaN else signed_inf (0 < a))"
| "np_div (Fin a) PInf = Fin 0"
| "np_div (Fin a) NInf = Fin 0"
| "np_div PInf (Fin b) = signed_inf (0 \<le> b)"
| "np_div NInf (Fin b) = signed_inf (b < 0)"
| "np_div PInf PInf = NaN"
| "np_div NInf NInf = NaN"
| "np_div PInf NInf = NaN"
| "np_div NInf PInf = NaN"

text \<open>A plain sum, and the NaN-skipping sum and mean that xarray's reductions use by default.\<close>

definition np_sum :: "npfloat list \<Rightarrow> npfloat" where
  "np_sum vs = foldr np_add vs (Fin 0)"

definition nansum :: "npfloat list \<Rightarrow> npfloat" where
  "nansum vs = np_sum (filter (\<lambda>v. \<not> isnan v) vs)"

definition nanmean :: "npfloat list \<Rightarrow> npfloat" where
  "nanmean vs =
     (let valid = filter (\<lambda>v. \<not> isnan v) vs
      in np_div (np_sum valid) (Fin (real (length valid))))"

section \<open>Figure 4: the per-slice linear trend\<close>

text \<open>
  \<^verbatim>\<open>
  def calc_slope(y):
      x = np.arange(len(y))
      # drop missing values (NaNs) from x and y
      finite_indexes = ~np.isnan(y)
      slope = np.nan if (np.sum(finite_indexes) < 2) else np.polyfit(x[finite_indexes], y[finite_indexes], 1)[0]
      return slope
  \<close>
\<close>

definition arange :: "nat \<Rightarrow> nat list" where
  "arange n = [0..<n]"

definition finite_indexes :: "npfloat list \<Rightarrow> bool list" where
  "finite_indexes y = map (\<lambda>v. \<not> isnan v) y"

text \<open>Indexing an array by a boolean mask of the same length keeps the entries marked True.\<close>

definition mask_select :: "bool list \<Rightarrow> 'a list \<Rightarrow> 'a list" where
  "mask_select m xs = map snd (filter fst (zip m xs))"

definition count_true :: "bool list \<Rightarrow> nat" where
  "count_true m = length (filter (\<lambda>b. b) m)"

subsection \<open>The degree-1 least-squares fit\<close>

text \<open>
  \<open>np.polyfit(x, y, 1)[0]\<close> is a library routine.  Its documented contract is the
  least-squares line through the points; for at least two points with pairwise different
  abscissae and finite ordinates that line is unique and its slope is given by the normal
  equations.  What the routine does on any other input (an error, NaN, a minimum-norm
  solution) is left open: it is the parameter \<open>other\<close>.
\<close>

definition ols_slope :: "(real \<times> real) list \<Rightarrow> real" where
  "ols_slope ps =
     (let n = real (length ps);
          sx = (\<Sum>(x, y)\<leftarrow>ps. x);
          sy = (\<Sum>(x, y)\<leftarrow>ps. y);
          sxx = (\<Sum>(x, y)\<leftarrow>ps. x * x);
          sxy = (\<Sum>(x, y)\<leftarrow>ps. x * y)
      in (n * sxy - sx * sy) / (n * sxx - sx * sx))"

definition ols_intercept :: "(real \<times> real) list \<Rightarrow> real" where
  "ols_intercept ps =
     ((\<Sum>(x, y)\<leftarrow>ps. y) - ols_slope ps * (\<Sum>(x, y)\<leftarrow>ps. x)) / real (length ps)"

definition sq_error :: "real \<Rightarrow> real \<Rightarrow> (real \<times> real) list \<Rightarrow> real" where
  "sq_error a b ps = (\<Sum>(x, y)\<leftarrow>ps. (y - (a * x + b)) * (y - (a * x + b)))"

definition polyfit1_slope ::
  "(nat list \<Rightarrow> npfloat list \<Rightarrow> py_error + npfloat) \<Rightarrow> nat list \<Rightarrow> npfloat list \<Rightarrow> py_error + npfloat"
where
  "polyfit1_slope other xs ys =
     (if length xs = length ys \<and> 2 \<le> length xs \<and> distinct xs \<and> list_all isfinite ys
      then Inr (Fin (ols_slope (zip (map real xs) (map the_fin ys))))
      else other xs ys)"

definition calc_slope ::
  "(nat list \<Rightarrow> npfloat list \<Rightarrow> py_error + npfloat) \<Rightarrow> npfloat list \<Rightarrow> py_error + npfloat"
where
  "calc_slope other y =
     (let x = arange (length y);
          fi = finite_indexes y
      in if count_true fi < 2 then Inr NaN
         else polyfit1_slope other (mask_select fi x) (mask_select fi y))"

text \<open>
  \<^verbatim>\<open>
  def linear_trend(da, dim="time"):
      da_chunk = da.chunk({dim: -1})
      trend = xr.apply_ufunc(calc_slope, da_chunk, vectorize=True,
                             input_core_dims=[[dim]], output_core_dims=[[]], ...)
      return trend
  \<close>
  The array is given as the list of its 1-D time slices, one per combination of the other
  indices.  An error in one slice is the error of the whole call.
\<close>

fun collect_results :: "(py_error + 'a) list \<Rightarrow> py_error + 'a list" where
  "collect_results [] = Inr []"
| "collect_results (r # rs) =
     (case r of
        Inl e \<Rightarrow> Inl e
      | Inr v \<Rightarrow> (case collect_results rs of Inl e \<Rightarrow> Inl e | Inr vs \<Rightarrow> Inr (v # vs)))"

definition linear_trend ::
  "(nat list \<Rightarrow> npfloat list \<Rightarrow> py_error + npfloat) \<Rightarrow> npfloat list list \<Rightarrow> py_error + npfloat list"
where
  "linear_trend other da = collect_results (map (calc_slope other) da)"

text \<open>The points handed to the fit when no sample of the slice is missing.\<close>

definition sample_points :: "npfloat list \<Rightarrow> (real \<times> real) list" where
  "sample_points y = zip (map real (arange (length y))) (map the_fin y)"

section \<open>Time coordinates and calendar resampling\<close>

text \<open>
  A time stamp is a calendar date (year, month, day).  Time axes are in increasing
  order, as the datasets deliver them.
\<close>

type_synonym date = "int \<times> nat \<times> nat"

definition year :: "date \<Rightarrow> int" where
  "year t = fst t"

definition month :: "date \<Rightarrow> nat" where
  "month t = fst (snd t)"

text \<open>
  \<open>.sel(time=slice("1979", "2012"))\<close>: the samples whose time stamp lies in the years
  of the slice, both ends included.
\<close>

definition sel_years :: "int \<Rightarrow> int \<Rightarrow> (date \<times> 'a) list \<Rightarrow> (date \<times> 'a) list" where
  "sel_years y1 y2 da = filter (\<lambda>(t, v). y1 \<le> year t \<and> year t \<le> y2) da"

text \<open>
  \<open>.resample(time="AS")\<close>: one bin per calendar year, from the year of the first
  sample to the year of the last one, labelled by the year.
\<close>

definition resample_years :: "date list \<Rightarrow> int list" where
  "resample_years ts = (case ts of [] \<Rightarrow> [] | _ # _ \<Rightarrow> [year (hd ts)..year (last ts)])"

definition in_year :: "date list \<Rightarrow> int \<Rightarrow> 'a list \<Rightarrow> 'a list" where
  "in_year ts y vs = map snd (filter (\<lambda>(t, v). year t = y) (zip ts vs))"

text \<open>The sum of a bin skips NaN; a bin that holds no sample at all has the value NaN.\<close>

definition bin_sum :: "npfloat list \<Rightarrow> npfloat" where
  "bin_sum vs = (if vs = [] then NaN else nansum vs)"

definition resample_AS_sum :: "date list \<Rightarrow> npfloat list \<Rightarrow> npfloat list" where
  "resample_AS_sum ts vs = map (\<lambda>y. bin_sum (in_year ts y vs)) (resample_years ts)"

definition resample_AS_mean :: "date list \<Rightarrow> npfloat list \<Rightarrow> npfloat list" where
  "resample_AS_mean ts vs = map (\<lambda>y. nanmean (in_year ts y vs)) (resample_years ts)"

section \<open>Figure 2: the area-weighted global mean\<close>

text \<open>
  \<^verbatim>\<open>
  cell_area = grid.area.load()
  total_area = cell_area.sum()
  t_20c_ts = (
      (t_20c.resample(time="AS").mean("time") * cell_area).sum(dim=("lat", "lon"))
  ) / total_area
  \<close>
  A grid is a list of rows (latitude) of cells (longitude).  The reductions over
  \<open>("lat", "lon")\<close> run over all cells of the grid and skip NaN.
\<close>

type_synonym grid = "npfloat list list"

definition total_area :: "grid \<Rightarrow> npfloat" where
  "total_area cell_area = nansum (concat cell_area)"

definition grid_mul :: "grid \<Rightarrow> grid \<Rightarrow> grid" where
  "grid_mul f w = map2 (map2 np_mul) f w"

text \<open>
  The field and the weights are on the same grid: the same number of rows, and rows of the
  same lengths.
\<close>

definition same_shape :: "'a list list \<Rightarrow> 'b list list \<Rightarrow> bool" where
  "same_shape f w = list_all2 (\<lambda>r s. length r = length s) f w"

definition area_weighted_mean :: "grid \<Rightarrow> grid \<Rightarrow> npfloat" where
  "area_weighted_mean cell_area f =
     np_div (nansum (concat (grid_mul f cell_area))) (total_area cell_area)"

text \<open>
  The whole expression.  The field is indexed member, latitude, longitude, time (xarray
  addresses axes by name, so the nesting order is the model's choice); the result is
  indexed member, year.
\<close>

definition t_20c_ts :: "date list \<Rightarrow> grid \<Rightarrow> npfloat list list list list \<Rightarrow> npfloat list list" where
  "t_20c_ts ts cell_area t_20c =
     map (\<lambda>member.
            map (\<lambda>k. area_weighted_mean cell_area (map (map (\<lambda>series. series ! k)) member))
              [0..<length (resample_years ts)])
       (map (map (map (resample_AS_mean ts))) t_20c)"

section \<open>Figure 2: the duration-weighted annual mean of the observations\<close>

text \<open>
  \<^verbatim>\<open>
  def weighted_temporal_mean(ds):
      """
      weight by days in each month
      """
      time_bound_diff = ds.time_bnds.diff(dim="nbnds")[:, 0]
      wgts = time_bound_diff.groupby("time.year") / time_bound_diff.groupby(
          "time.year"
      ).sum(xr.ALL_DIMS)
      obs = ds["air"]
      cond = obs.isnull()
      ones = xr.where(cond, 0.0, 1.0)
      obs_sum = (obs * wgts).resample(time="AS").sum(dim="time")
      ones_out = (ones * wgts).resample(time="AS").sum(dim="time")
      obs_s = (obs_sum / ones_out).mean(("lat", "lon")).to_series()
      return obs_s
  \<close>
  The dataset carries the time axis, the two bounds of every sample's interval (as
  integer instants) and the variable \<open>air\<close>, indexed latitude, longitude, time.
\<close>

record dataset =
  time :: "date list"
  time_bnds :: "(int \<times> int) list"
  air :: "npfloat list list list"

definition time_bound_diff :: "dataset \<Rightarrow> int list" where
  "time_bound_diff ds = map (\<lambda>(lo, hi). hi - lo) (time_bnds ds)"

definition year_total :: "date list \<Rightarrow> int list \<Rightarrow> int \<Rightarrow> int" where
  "year_total ts ds y = sum_list (in_year ts y ds)"

definition wgts :: "dataset \<Rightarrow> npfloat list" where
  "wgts ds =
     map (\<lambda>(t, d). np_div (Fin (real_of_int d))
                      (Fin (real_of_int (year_total (time ds) (time_bound_diff ds) (year t)))))
       (zip (time ds) (time_bound_diff ds))"

text \<open>Every sample's interval has positive length: its upper bound is after its lower bound.\<close>

definition positive_durations :: "dataset \<Rightarrow> bool" where
  "positive_durations ds = list_all (\<lambda>(lo, hi). lo < hi) (time_bnds ds)"

definition ones :: "npfloat list \<Rightarrow> npfloat list" where
  "ones obs = map (\<lambda>v. if isnan v then Fin 0 else Fin 1) obs"

definition obs_sum :: "dataset \<Rightarrow> npfloat list \<Rightarrow> npfloat list" where
  "obs_sum ds obs = resample_AS_sum (time ds) (map2 np_mul obs (wgts ds))"

definition ones_out :: "dataset \<Rightarrow> npfloat list \<Rightarrow> npfloat list" where
  "ones_out ds obs = resample_AS_sum (time ds) (map2 np_mul (ones obs) (wgts ds))"

text \<open>The quotient \<open>obs_sum / ones_out\<close> at one grid cell, one value per year.\<close>

definition annual_ratio :: "dataset \<Rightarrow> npfloat list \<Rightarrow> npfloat list" where
  "annual_ratio ds obs = map2 np_div (obs_sum ds obs) (ones_out ds obs)"

definition weighted_temporal_mean :: "dataset \<Rightarrow> (int \<times> npfloat) list" where
  "weighted_temporal_mean ds =
     (let ratio = concat (map (map (annual_ratio ds)) (air ds));
          years = resample_years (time ds)
      in zip years (map (\<lambda>k. nanmean (map (\<lambda>series. series ! k) ratio)) [0..<length years]))"

section \<open>Figure 4: the winter seasons\<close>

text \<open>
  \<^verbatim>\<open>
  seasons = t.sel(time=slice("1979", "2012")).resample(time="QS-DEC").mean("time")
  # Include only full seasons from 1979 and 2012
  seasons = seasons.sel(time=slice("1979", "2012")).load()
  winter_seasons = seasons.sel(
      time=seasons.time.where(seasons.time.dt.month == 12, drop=True)
  )
  assert len(winter_seasons.time) == 34
  \<close>
  \<open>QS-DEC\<close> bins are the quarters that start on the first of December, March, June and
  September.  A bin is labelled by its first day; there is one bin for every quarter from
  the one holding the first sample to the one holding the last sample.
\<close>

definition month_index :: "date \<Rightarrow> int" where
  "month_index t = 12 * year t + int (month t) - 1"

definition date_of_index :: "int \<Rightarrow> date" where
  "date_of_index i = (i div 12, nat (i mod 12) + 1, 1)"

definition qs_dec_start :: "date \<Rightarrow> date" where
  "qs_dec_start t =
     (if month t = 12 then (year t, 12, 1)
      else if month t \<le> 2 then (year t - 1, 12, 1)
      else if month t \<le> 5 then (year t, 3, 1)
      else if month t \<le> 8 then (year t, 6, 1)
      else (year t, 9, 1))"

definition quarter_range :: "date \<Rightarrow> date \<Rightarrow> date list" where
  "quarter_range a b =
     map (\<lambda>k. date_of_index (month_index a + 3 * int k))
       [0..<nat ((month_index b - month_index a) div 3 + 1)]"

definition resample_QS_DEC_mean :: "(date \<times> npfloat) list \<Rightarrow> (date \<times> npfloat) list" where
  "resample_QS_DEC_mean da =
     (case da of
        [] \<Rightarrow> []
      | _ # _ \<Rightarrow>
          map (\<lambda>q. (q, nanmean (map snd (filter (\<lambda>(t, v). qs_dec_start t = q) da))))
            (quarter_range (qs_dec_start (fst (hd da))) (qs_dec_start (fst (last da)))))"

definition seasons :: "(date \<times> npfloat) list \<Rightarrow> (date \<times> npfloat) list" where
  "seasons t = sel_years 1979 2012 (resample_QS_DEC_mean (sel_years 1979 2012 t))"

definition winter_seasons :: "(date \<times> npfloat) list \<Rightarrow> (date \<times> npfloat) list" where
  "winter_seasons t = filter (\<lambda>(q, v). month q = 12) (seasons t)"

section \<open>Facts about the array primitives\<close>

lemma mask_select_finite_indexes:
  "mask_select (finite_indexes y) y = filter (\<lambda>v. \<not> isnan v) y"
  unfolding mask_select_def finite_indexes_def
  by (induction y) auto

lemma count_true_finite_indexes:
  "count_true (finite_indexes y) = length (filter (\<lambda>v. \<not> isnan v) y)"
  unfolding count_true_def finite_indexes_def
  by (induction y) auto

section \<open>The least-squares line\<close>

lemma sq_error_expand:
  fixes a b a' b' :: real
  shows "sq_error a b ps =
     sq_error a' b' ps
     - 2 * (a - a') * (\<Sum>(x, y)\<leftarrow>ps. (y - (a' * x + b')) * x)
     - 2 * (b - b') * (\<Sum>(x, y)\<leftarrow>ps. y - (a' * x + b'))
     + (\<Sum>(x, y)\<leftarrow>ps. ((a - a') * x + (b - b')) * ((a - a') * x + (b - b')))"
  unfolding sq_error_def
  by (induction ps) (auto simp: algebra_simps)

lemma residual_sum:
  "(\<Sum>(x, y)\<leftarrow>ps. y - (a' * x + b')) =
     (\<Sum>(x, y)\<leftarrow>ps. y) - a' * (\<Sum>(x, y)\<leftarrow>ps. x) - real (length ps) * b'"
  for a' b' :: real
  by (induction ps) (auto simp: algebra_simps)

lemma residual_moment:
  "(\<Sum>(x, y)\<leftarrow>ps. (y - (a' * x + b')) * x) =
     (\<Sum>(x, y)\<leftarrow>ps. x * y) - a' * (\<Sum>(x, y)\<leftarrow>ps. x * x) - b' * (\<Sum>(x, y)\<leftarrow>ps. x)"
  for a' b' :: real
  by (induction ps) (auto simp: algebra_simps)

lemma squares_nonneg:
  "0 \<le> (\<Sum>(x, y)\<leftarrow>ps. ((c::real) * x + d) * (c * x + d))"
  by (induction ps) auto

lemma centred_squares:
  "(\<Sum>x\<leftarrow>xs. (x - m) * (x - m)) =
     (\<Sum>x\<leftarrow>xs. x * x) - 2 * m * sum_list xs + real (length xs) * (m * m)" for m :: real
  by (induction xs) (auto simp: algebra_simps)

lemma centred_squares_nonneg:
  "0 \<le> (\<Sum>x\<leftarrow>zs. (x - m) * (x - m))" for m :: real
  by (induction zs) auto

lemma centred_squares_pos:
  fixes m :: real
  assumes "x \<in> set xs" "x \<noteq> m"
  shows "0 < (\<Sum>x\<leftarrow>xs. (x - m) * (x - m))"
  using assms
proof (induction xs)
  case Nil
  then show ?case by simp
next
  case (Cons z zs)
  define S where "S = (\<Sum>x\<leftarrow>zs. (x - m) * (x - m))"
  have nn: "0 \<le> S"
    unfolding S_def by (rule centred_squares_nonneg)
  have sq: "0 \<le> (z - m) * (z - m)" by simp
  show ?case
  proof (cases "x = z")
    case True
    then have "0 < (z - m) * (z - m)" using Cons.prems by (auto simp: zero_less_mult_iff)
    with nn have "0 < (z - m) * (z - m) + S" by linarith
    then show ?thesis by (simp add: S_def)
  next
    case False
    then have "0 < S" using Cons by (simp add: S_def)
    with sq have "0 < (z - m) * (z - m) + S" by linarith
    then show ?thesis by (simp add: S_def)
  qed
qed

lemma spread_pos:
  fixes xs :: "real list"
  assumes "distinct xs" "2 \<le> length xs"
  shows "0 < real (length xs) * (\<Sum>x\<leftarrow>xs. x * x) - sum_list xs * sum_list xs"
proof -
  define n where "n = real (length xs)"
  define m where "m = sum_list xs / n"
  define S where "S = (\<Sum>x\<leftarrow>xs. (x - m) * (x - m))"
  define Q where "Q = (\<Sum>x\<leftarrow>xs. x * x)"
  have npos: "0 < n" using assms(2) by (cases xs) (auto simp: n_def)
  have "card (set xs) = length xs" using assms(1) by (simp add: distinct_card)
  then have "\<not> set xs \<subseteq> {m}"
    using assms(2) card_mono[of "{m}" "set xs"] by auto
  then obtain x where x: "x \<in> set xs" "x \<noteq> m" by auto
  have pos: "0 < S"
    unfolding S_def by (rule centred_squares_pos[OF x])
  have sm: "sum_list xs = n * m"
    using npos by (simp add: m_def)
  have "S = Q - 2 * m * sum_list xs + n * (m * m)"
    unfolding S_def Q_def n_def by (rule centred_squares)
  then have "S = Q - n * (m * m)"
    by (simp add: sm algebra_simps)
  then have "n * S = n * (Q - n * (m * m))"
    by simp
  also have "\<dots> = n * Q - (n * m) * (n * m)"
    by (simp add: algebra_simps)
  finally have "n * S = n * Q - (n * m) * (n * m)" .
  moreover have "0 < n * S"
    using npos pos by simp
  ultimately show ?thesis by (simp add: n_def Q_def sm)
qed

lemma sum_fst: "(\<Sum>(x, y)\<leftarrow>ps. x) = sum_list (map fst ps)" for ps :: "(real \<times> 'b) list"
  by (induction ps) auto

lemma sum_fst_sq: "(\<Sum>(x, y)\<leftarrow>ps. x * x) = (\<Sum>x\<leftarrow>map fst ps. x * x)"
  for ps :: "(real \<times> 'b) list"
  by (induction ps) auto

lemma ols_denominator_pos:
  assumes "distinct (map fst ps)" "2 \<le> length ps"
  shows "0 < real (length ps) * (\<Sum>(x, y)\<leftarrow>ps. x * x) - (\<Sum>(x, y)\<leftarrow>ps. x) * (\<Sum>(x, y)\<leftarrow>ps. x)"
  unfolding sum_fst sum_fst_sq
  using spread_pos[of "map fst ps"] assms by simp

lemma ols_normal_equations:
  assumes "distinct (map fst ps)" "2 \<le> length ps"
  shows "(\<Sum>(x, y)\<leftarrow>ps. y - (ols_slope ps * x + ols_intercept ps)) = 0"
    and "(\<Sum>(x, y)\<leftarrow>ps. (y - (ols_slope ps * x + ols_intercept ps)) * x) = 0"
proof -
  define n where "n = real (length ps)"
  define sx where "sx = (\<Sum>(x, y)\<leftarrow>ps. x)"
  define sy where "sy = (\<Sum>(x, y)\<leftarrow>ps. y)"
  define sxx where "sxx = (\<Sum>(x, y)\<leftarrow>ps. x * x)"
  define sxy where "sxy = (\<Sum>(x, y)\<leftarrow>ps. x * y)"
  define k where "k = ols_slope ps"
  define c where "c = ols_intercept ps"
  have npos: "0 < n" using assms(2) by (cases ps) (auto simp: n_def)
  have den: "0 < n * sxx - sx * sx"
    using ols_denominator_pos[OF assms] by (simp add: n_def sx_def sxx_def)
  have k: "k * (n * sxx - sx * sx) = n * sxy - sx * sy"
    using den by (simp add: k_def ols_slope_def Let_def n_def sx_def sy_def sxx_def sxy_def)
  have c: "n * c = sy - k * sx"
    using npos by (simp add: c_def k_def ols_intercept_def n_def sx_def sy_def)
  have "(\<Sum>(x, y)\<leftarrow>ps. y - (k * x + c)) = sy - k * sx - n * c"
    unfolding sy_def sx_def n_def by (rule residual_sum)
  then show "(\<Sum>(x, y)\<leftarrow>ps. y - (ols_slope ps * x + ols_intercept ps)) = 0"
    using c by (simp add: k_def c_def)
  have m: "(\<Sum>(x, y)\<leftarrow>ps. (y - (k * x + c)) * x) = sxy - k * sxx - c * sx"
    unfolding sxy_def sxx_def sx_def by (rule residual_moment)
  have "n * (sxy - k * sxx - c * sx) = n * sxy - k * (n * sxx) - (n * c) * sx"
    by (simp add: algebra_simps)
  also have "\<dots> = n * sxy - k * (n * sxx) - (sy - k * sx) * sx"
    by (simp only: c)
  also have "\<dots> = (n * sxy - sx * sy) - k * (n * sxx - sx * sx)"
    by (simp add: algebra_simps)
  also have "\<dots> = 0"
    by (simp add: k)
  finally have "sxy - k * sxx - c * sx = 0"
    using npos by simp
  with m show "(\<Sum>(x, y)\<leftarrow>ps. (y - (ols_slope ps * x + ols_intercept ps)) * x) = 0"
    by (simp add: k_def c_def)
qed

lemma ols_minimal:
  assumes "distinct (map fst ps)" "2 \<le> length ps"
  shows "sq_error (ols_slope ps) (ols_intercept ps) ps \<le> sq_error a b ps"
proof -
  have "sq_error a b ps = sq_error (ols_slope ps) (ols_intercept ps) ps
      + (\<Sum>(x, y)\<leftarrow>ps. ((a - ols_slope ps) * x + (b - ols_intercept ps))
                       * ((a - ols_slope ps) * x + (b - ols_intercept ps)))"
    by (simp add: sq_error_expand[of a b ps "ols_slope ps" "ols_intercept ps"]
        ols_normal_equations[OF assms])
  then show ?thesis
    using squares_nonneg[of "a - ols_slope ps" "b - ols_intercept ps" ps] by linarith
qed

lemma ols_slope_linear:
  assumes "distinct xs" "2 \<le> length xs"
  shows "ols_slope (map (\<lambda>x. (x, c * x + d)) xs) = c"
proof -
  define ps where "ps = map (\<lambda>x. (x, c * x + d)) xs"
  define n where "n = real (length xs)"
  define sx where "sx = sum_list xs"
  define sxx where "sxx = (\<Sum>x\<leftarrow>xs. x * x)"
  have fst: "map fst ps = xs" by (simp add: ps_def comp_def)
  have len: "length ps = length xs" by (simp add: ps_def)
  have den: "0 < n * sxx - sx * sx"
    using spread_pos[OF assms] by (simp add: n_def sx_def sxx_def)
  have s1: "(\<Sum>(x, y)\<leftarrow>ps. x) = sx"
    by (simp add: sum_fst fst sx_def)
  have s2: "(\<Sum>(x, y)\<leftarrow>ps. x * x) = sxx"
    by (simp add: sum_fst_sq fst sxx_def)
  have s3: "(\<Sum>(x, y)\<leftarrow>ps. y) = c * sx + n * d"
    unfolding ps_def sx_def n_def by (induction xs) (auto simp: algebra_simps)
  have s4: "(\<Sum>(x, y)\<leftarrow>ps. x * y) = c * sxx + d * sx"
    unfolding ps_def sx_def sxx_def by (induction xs) (auto simp: algebra_simps)
  have "n * (c * sxx + d * sx) - sx * (c * sx + n * d) = c * (n * sxx - sx * sx)"
    by (simp add: algebra_simps)
  then have "ols_slope ps = c * (n * sxx - sx * sx) / (n * sxx - sx * sx)"
    by (simp add: ols_slope_def Let_def s1 s2 s3 s4 len n_def[symmetric])
  also have "\<dots> = c" using den by simp
  finally show ?thesis by (simp add: ps_def)
qed

section \<open>The trend estimator\<close>

lemma isfinite_not_nan: "isfinite v \<Longrightarrow> \<not> isnan v"
  by (cases v) auto

lemma isnan_iff: "isnan v \<longleftrightarrow> v = NaN"
  by (cases v) auto

lemma finite_indexes_all_finite:
  "list_all isfinite y \<Longrightarrow> finite_indexes y = replicate (length y) True"
  unfolding finite_indexes_def
  by (induction y) (auto simp: isfinite_not_nan)

lemma mask_select_all:
  "length xs = n \<Longrightarrow> mask_select (replicate n True) xs = xs"
  unfolding mask_select_def
  by (induction xs arbitrary: n) auto

lemma count_true_all: "count_true (replicate n True) = n"
  unfolding count_true_def by (induction n) auto

lemma mask_select_pairs:
  "length xs = length y \<Longrightarrow>
   zip (mask_select (finite_indexes y) xs) (mask_select (finite_indexes y) y) =
     filter (\<lambda>(i, v). v \<noteq> NaN) (zip xs y)"
  unfolding mask_select_def finite_indexes_def
  by (induction xs y rule: list_induct2) (auto simp: isnan_iff)

lemma mask_select_fst:
  "length xs = length y \<Longrightarrow>
   mask_select (finite_indexes y) xs = map fst (filter (\<lambda>(i, v). v \<noteq> NaN) (zip xs y))"
  unfolding mask_select_def finite_indexes_def
  by (induction xs y rule: list_induct2) (auto simp: isnan_iff)

lemma mask_select_snd:
  "length xs = length y \<Longrightarrow>
   mask_select (finite_indexes y) y = map snd (filter (\<lambda>(i, v). v \<noteq> NaN) (zip xs y))"
  unfolding mask_select_def finite_indexes_def
  by (induction xs y rule: list_induct2) (auto simp: isnan_iff)

lemma count_true_pairs:
  "length xs = length y \<Longrightarrow>
   count_true (finite_indexes y) = length (filter (\<lambda>(i, v). v \<noteq> NaN) (zip xs y))"
  unfolding count_true_def finite_indexes_def
  by (induction xs y rule: list_induct2) (auto simp: isnan_iff)

lemma calc_slope_all_finite:
  assumes "2 \<le> length y" "list_all isfinite y"
  shows "calc_slope other y = Inr (Fin (ols_slope (sample_points y)))"
proof -
  have fi: "finite_indexes y = replicate (length y) True"
    by (rule finite_indexes_all_finite[OF assms(2)])
  have "calc_slope other y = polyfit1_slope other (arange (length y)) y"
    using assms(1) by (simp add: calc_slope_def Let_def fi count_true_all mask_select_all arange_def)
  also have "\<dots> = Inr (Fin (ols_slope (sample_points y)))"
    using assms by (simp add: polyfit1_slope_def sample_points_def arange_def)
  finally show ?thesis .
qed

lemma collect_results_Inr: "collect_results (map (\<lambda>y. Inr (f y)) da) = Inr (map f da)"
  by (induction da) auto

lemma sample_points_distinct: "distinct (map fst (sample_points y))"
  by (simp add: sample_points_def arange_def distinct_map)

lemma sample_points_linear:
  "sample_points (map (\<lambda>i. Fin (c * real i + d)) (arange n)) =
     map (\<lambda>x. (x, c * x + d)) (map real (arange n))"
  by (simp add: sample_points_def arange_def zip_map2 zip_map1 zip_same_conv_map comp_def)

lemma calc_slope_linear_series:
  assumes "2 \<le> n"
  shows "calc_slope other (map (\<lambda>i. Fin (c * real i + d)) (arange n)) = Inr (Fin c)"
proof -
  let ?y = "map (\<lambda>i. Fin (c * real i + d)) (arange n)"
  have len: "length ?y = n" by (simp add: arange_def)
  have fin: "list_all isfinite ?y" by (simp add: list_all_iff)
  have "calc_slope other ?y = Inr (Fin (ols_slope (sample_points ?y)))"
    using assms len fin by (intro calc_slope_all_finite) simp_all
  also have "ols_slope (sample_points ?y) = c"
    unfolding sample_points_linear
    using assms by (intro ols_slope_linear) (simp_all add: arange_def distinct_map)
  finally show ?thesis .
qed

text \<open>
  C2.  When every time slice has at least two samples and all of them are finite, the
  trend of each slice is the slope of the least-squares line of the values against the
  sample indices 0, 1, ..., T-1: the line with that slope and the matching intercept has
  the least sum of squared residuals among all lines.  Each slice is fitted on its own.
  If every slice is the series 2*i + 5, every trend is 2.
\<close>

theorem linear_trend_least_squares:
  assumes "\<forall>y\<in>set da. 2 \<le> length y \<and> list_all isfinite y"
  shows "linear_trend other da = Inr (map (\<lambda>y. Fin (ols_slope (sample_points y))) da)
       \<and> (\<forall>y\<in>set da. \<forall>a b.
             sq_error (ols_slope (sample_points y)) (ols_intercept (sample_points y)) (sample_points y)
               \<le> sq_error a b (sample_points y))
       \<and> ((\<forall>y\<in>set da. y = map (\<lambda>i. Fin (2 * real i + 5)) (arange (length y)))
             \<longrightarrow> linear_trend other da = Inr (map (\<lambda>y. Fin 2) da))"
proof (intro conjI ballI allI impI)
  have eq: "map (calc_slope other) da = map (\<lambda>y. Inr (Fin (ols_slope (sample_points y)))) da"
    using assms by (intro map_cong) (auto simp: calc_slope_all_finite)
  show "linear_trend other da = Inr (map (\<lambda>y. Fin (ols_slope (sample_points y))) da)"
    unfolding linear_trend_def eq by (rule collect_results_Inr)
next
  fix y a b
  assume "y \<in> set da"
  then have "2 \<le> length (sample_points y)"
    using assms by (auto simp: sample_points_def arange_def)
  then show "sq_error (ols_slope (sample_points y)) (ols_intercept (sample_points y)) (sample_points y)
               \<le> sq_error a b (sample_points y)"
    by (intro ols_minimal sample_points_distinct)
next
  assume lin: "\<forall>y\<in>set da. y = map (\<lambda>i. Fin (2 * real i + 5)) (arange (length y))"
  have eq: "map (calc_slope other) da = map (\<lambda>y. Inr (Fin 2)) da"
  proof (intro map_cong refl)
    fix y assume y: "y \<in> set da"
    then have "2 \<le> length y" using assms by simp
    moreover have "y = map (\<lambda>i. Fin (2 * real i + 5)) (arange (length y))"
      using lin y by simp
    ultimately show "calc_slope other y = Inr (Fin 2)"
      using calc_slope_linear_series[of "length y" other 2 5] by simp
  qed
  show "linear_trend other da = Inr (map (\<lambda>y. Fin 2) da)"
    unfolding linear_trend_def eq by (rule collect_results_Inr)
qed

theorem linear_trend_least_squares_witness:
  "(2 \<le> length [Fin 5, Fin 7, Fin 9] \<and> list_all isfinite [Fin 5, Fin 7, Fin 9]) \<and>
   (2 \<le> length [Fin 5, Fin 7] \<and> list_all isfinite [Fin 5, Fin 7]) \<and>
   linear_trend (\<lambda>xs ys. Inl LinAlgError) [[Fin 5, Fin 7, Fin 9], [Fin 5, Fin 7]] = Inr [Fin 2, Fin 2] \<and>
   linear_trend (\<lambda>xs ys. Inl LinAlgError) [[Fin 0, Fin 1, Fin 5]] = Inr [Fin (5 / 2)]"
proof -
  let ?other = "\<lambda>(xs::nat list) (ys::npfloat list). (Inl LinAlgError :: py_error + npfloat)"
  have a: "linear_trend ?other [[Fin 5, Fin 7, Fin 9], [Fin 5, Fin 7]] = Inr [Fin 2, Fin 2]"
    using linear_trend_least_squares[of "[[Fin 5, Fin 7, Fin 9], [Fin 5, Fin 7]]" ?other,
        THEN conjunct2, THEN conjunct2]
    by (simp add: arange_def)
  have b: "linear_trend ?other [[Fin 0, Fin 1, Fin 5]] = Inr [Fin (5 / 2)]"
    using linear_trend_least_squares[of "[[Fin 0, Fin 1, Fin 5]]" ?other, THEN conjunct1]
    by (simp add: arange_def sample_points_def ols_slope_def)
  show ?thesis using a b by simp
qed

text \<open>
  C9.  The mask of retained samples is an is-NaN test: a sample is retained when it is
  finite or one of the two infinities.  The retained samples, infinities included, are
  counted against the minimum of two and handed to the fit with their indices.
\<close>

theorem calc_slope_drops_nan_only:
  "finite_indexes y = map (\<lambda>v. v = PInf \<or> v = NInf \<or> isfinite v) y \<and>
   calc_slope other y =
     (let kept = filter (\<lambda>(i, v). v \<noteq> NaN) (zip (arange (length y)) y)
      in if length kept < 2 then Inr NaN
         else polyfit1_slope other (map fst kept) (map snd kept))"
proof
  have "(\<not> isnan v) = (v = PInf \<or> v = NInf \<or> isfinite v)" for v
    by (cases v) auto
  then show "finite_indexes y = map (\<lambda>v. v = PInf \<or> v = NInf \<or> isfinite v) y"
    by (simp add: finite_indexes_def)
next
  have len: "length (arange (length y)) = length y" by (simp add: arange_def)
  show "calc_slope other y =
     (let kept = filter (\<lambda>(i, v). v \<noteq> NaN) (zip (arange (length y)) y)
      in if length kept < 2 then Inr NaN
         else polyfit1_slope other (map fst kept) (map snd kept))"
    by (simp add: calc_slope_def Let_def mask_select_fst[OF len] mask_select_snd[OF len]
        count_true_pairs[OF len])
qed

theorem calc_slope_drops_nan_only_witness:
  "finite_indexes [PInf, NaN, Fin 1, NInf] = [True, False, True, True] \<and>
   calc_slope (\<lambda>xs ys. Inl LinAlgError) [PInf, NaN, Fin 1] = Inl LinAlgError \<and>
   calc_slope (\<lambda>xs ys. Inl LinAlgError) [PInf, NaN, NaN] = Inr NaN"
  using calc_slope_drops_nan_only[of "[PInf, NaN, Fin 1, NInf]" "\<lambda>xs ys. Inl LinAlgError"]
    calc_slope_drops_nan_only[of "[PInf, NaN, Fin 1]" "\<lambda>xs ys. Inl LinAlgError"]
    calc_slope_drops_nan_only[of "[PInf, NaN, NaN]" "\<lambda>xs ys. Inl LinAlgError"]
  by (simp add: arange_def polyfit1_slope_def)

text \<open>
  C3, as amended.  The samples dropped from the fit are the NaN ones.  When fewer than two
  samples that are not NaN remain, the result is NaN and no error is raised.
\<close>

theorem calc_slope_too_few_samples:
  assumes "length (filter (\<lambda>v. v \<noteq> NaN) y) < 2"
  shows "mask_select (finite_indexes y) y = filter (\<lambda>v. v \<noteq> NaN) y \<and>
         calc_slope other y = Inr NaN"
proof -
  have nn: "(\<lambda>v. \<not> isnan v) = (\<lambda>v. v \<noteq> NaN)"
    by (simp add: isnan_iff)
  have "count_true (finite_indexes y) < 2"
    using assms by (simp add: count_true_finite_indexes nn)
  then show ?thesis
    by (simp add: calc_slope_def Let_def mask_select_finite_indexes nn)
qed

theorem calc_slope_too_few_samples_witness:
  "length (filter (\<lambda>v. v \<noteq> NaN) [NaN, PInf, NaN]) < 2 \<and>
   calc_slope (\<lambda>xs ys. Inl LinAlgError) [NaN, PInf, NaN] = Inr NaN"
  using calc_slope_too_few_samples[of "[NaN, PInf, NaN]" "\<lambda>xs ys. Inl LinAlgError"]
  by simp

text \<open>
  C3 as stated fails: the slice [inf, 1] has fewer than two finite samples, yet the
  infinite sample stays in the data handed to the fit and two samples are counted.
\<close>

theorem calc_slope_keeps_infinite_sample:
  "length (filter isfinite [PInf, Fin 1]) < 2 \<and>
   mask_select (finite_indexes [PInf, Fin 1]) [PInf, Fin 1] = [PInf, Fin 1] \<and>
   count_true (finite_indexes [PInf, Fin 1]) = 2"
  by (simp add: mask_select_def finite_indexes_def count_true_def)

section \<open>Sums of array values\<close>

lemma np_add_zero [simp]: "np_add (Fin 0) v = v"
  by (cases v) auto

lemma np_sum_Nil [simp]: "np_sum [] = Fin 0"
  by (simp add: np_sum_def)

lemma np_sum_Cons [simp]: "np_sum (v # vs) = np_add v (np_sum vs)"
  by (simp add: np_sum_def)

lemma np_sum_Fin: "np_sum (map Fin rs) = Fin (sum_list rs)"
  by (induction rs) auto

lemma finite_as_Fin: "list_all isfinite vs \<Longrightarrow> vs = map Fin (map the_fin vs)"
proof (induction vs)
  case Nil
  then show ?case by simp
next
  case (Cons v vs)
  then show ?case by (cases v) auto
qed

lemma nansum_no_nan: "list_all (\<lambda>v. \<not> isnan v) vs \<Longrightarrow> nansum vs = np_sum vs"
  by (simp add: nansum_def list_all_iff)

lemma nansum_finite:
  assumes "list_all isfinite vs"
  shows "nansum vs = Fin (sum_list (map the_fin vs))"
proof -
  have "list_all (\<lambda>v. \<not> isnan v) vs"
    using assms by (auto simp: list_all_iff isfinite_not_nan)
  then have "nansum vs = np_sum vs" by (rule nansum_no_nan)
  also have "\<dots> = np_sum (map Fin (map the_fin vs))"
    using finite_as_Fin[OF assms] by simp
  also have "\<dots> = Fin (sum_list (map the_fin vs))" by (rule np_sum_Fin)
  finally show ?thesis .
qed

lemma same_shape_concat_length:
  "same_shape f w \<Longrightarrow> length (concat f) = length (concat w)"
  unfolding same_shape_def by (induction f w rule: list_all2_induct) auto

lemma concat_grid_mul:
  "same_shape f w \<Longrightarrow> concat (grid_mul f w) = map2 np_mul (concat f) (concat w)"
  unfolding same_shape_def grid_mul_def
  by (induction f w rule: list_all2_induct) auto

text \<open>The products of a row of samples, each finite or NaN, with finite weights.\<close>

lemma nansum_products:
  assumes "length vs = length ws" "list_all isfinite ws" "list_all (\<lambda>v. isfinite v \<or> isnan v) vs"
  shows "nansum (map2 np_mul vs ws) =
           Fin (\<Sum>(v, w)\<leftarrow>filter (\<lambda>(v, w). \<not> isnan v) (zip vs ws). the_fin v * the_fin w)"
  using assms
proof (induction vs ws rule: list_induct2)
  case Nil
  then show ?case by (simp add: nansum_def)
next
  case (Cons v vs w ws)
  then have ih: "nansum (map2 np_mul vs ws) =
           Fin (\<Sum>(v, w)\<leftarrow>filter (\<lambda>(v, w). \<not> isnan v) (zip vs ws). the_fin v * the_fin w)"
    by simp
  obtain b where w: "w = Fin b" using Cons.prems(1) by (cases w) auto
  show ?case
  proof (cases v)
    case (Fin a)
    then show ?thesis using ih w by (simp add: nansum_def)
  next
    case PInf
    then show ?thesis using Cons.prems(2) by simp
  next
    case NInf
    then show ?thesis using Cons.prems(2) by simp
  next
    case NaN
    then show ?thesis using ih w by (simp add: nansum_def)
  qed
qed

section \<open>The area-weighted mean\<close>

lemma filter_not_nan_finite:
  "length vs = length ws \<Longrightarrow> list_all isfinite vs \<Longrightarrow>
   filter (\<lambda>(v, w). \<not> isnan v) (zip vs ws) = zip vs ws"
  by (induction vs ws rule: list_induct2) (auto simp: isfinite_not_nan)

lemma area_weighted_mean_value:
  assumes "same_shape f cell_area"
      and "list_all isfinite (concat cell_area)"
      and "list_all (\<lambda>v. isfinite v \<or> isnan v) (concat f)"
      and "(\<Sum>w\<leftarrow>concat cell_area. the_fin w) \<noteq> 0"
  shows "area_weighted_mean cell_area f =
           Fin ((\<Sum>(v, w)\<leftarrow>filter (\<lambda>(v, w). \<not> isnan v) (zip (concat f) (concat cell_area)).
                   the_fin v * the_fin w)
                / (\<Sum>w\<leftarrow>concat cell_area. the_fin w))"
proof -
  have len: "length (concat f) = length (concat cell_area)"
    by (rule same_shape_concat_length[OF assms(1)])
  have num: "nansum (concat (grid_mul f cell_area)) =
      Fin (\<Sum>(v, w)\<leftarrow>filter (\<lambda>(v, w). \<not> isnan v) (zip (concat f) (concat cell_area)).
             the_fin v * the_fin w)"
    unfolding concat_grid_mul[OF assms(1)]
    by (rule nansum_products[OF len assms(2) assms(3)])
  have den: "total_area cell_area = Fin (\<Sum>w\<leftarrow>concat cell_area. the_fin w)"
    unfolding total_area_def by (rule nansum_finite[OF assms(2)])
  show ?thesis
    using assms(4) by (simp add: area_weighted_mean_def num den)
qed

lemma t_20c_ts_entry:
  assumes "m < length t_20c" "k < length (resample_years ts)"
  shows "t_20c_ts ts cell_area t_20c ! m ! k =
     area_weighted_mean cell_area
       (map (map (\<lambda>series. resample_AS_mean ts series ! k)) (t_20c ! m))"
  using assms by (simp add: t_20c_ts_def comp_def)

text \<open>
  C4, as amended.  For a field of grids with finite values and a weight grid of the same
  shape with finite, non-negative values whose sum is not zero, the weighted reduction
  gives, at every remaining index, the sum over the grid of value times weight divided by
  the sum of the weights.
\<close>

theorem area_weighted_mean_formula:
  assumes "\<forall>f\<in>set field. same_shape f cell_area \<and> list_all isfinite (concat f)"
      and "list_all (\<lambda>w. isfinite w \<and> 0 \<le> the_fin w) (concat cell_area)"
      and "(\<Sum>w\<leftarrow>concat cell_area. the_fin w) \<noteq> 0"
  shows "map (area_weighted_mean cell_area) field =
           map (\<lambda>f. Fin ((\<Sum>(v, w)\<leftarrow>zip (concat f) (concat cell_area). the_fin v * the_fin w)
                          / (\<Sum>w\<leftarrow>concat cell_area. the_fin w))) field"
proof (intro map_cong refl)
  fix f assume f: "f \<in> set field"
  then have shape: "same_shape f cell_area" and fin: "list_all isfinite (concat f)"
    using assms(1) by auto
  have w: "list_all isfinite (concat cell_area)"
    using assms(2) by (simp add: list_all_iff)
  have v: "list_all (\<lambda>v. isfinite v \<or> isnan v) (concat f)"
    using fin by (simp add: list_all_iff)
  have "filter (\<lambda>(v, w). \<not> isnan v) (zip (concat f) (concat cell_area)) =
          zip (concat f) (concat cell_area)"
    by (rule filter_not_nan_finite[OF same_shape_concat_length[OF shape] fin])
  then show "area_weighted_mean cell_area f =
           Fin ((\<Sum>(v, w)\<leftarrow>zip (concat f) (concat cell_area). the_fin v * the_fin w)
                / (\<Sum>w\<leftarrow>concat cell_area. the_fin w))"
    using area_weighted_mean_value[OF shape w v assms(3)] by simp
qed

theorem area_weighted_mean_formula_witness:
  "(same_shape [[Fin 1, Fin 2], [Fin 3, Fin 4]] [[Fin 1, Fin 3], [Fin 0, Fin 4]]
     \<and> list_all isfinite (concat [[Fin 1, Fin 2], [Fin 3, Fin 4]]))
   \<and> list_all (\<lambda>w. isfinite w \<and> 0 \<le> the_fin w) (concat [[Fin 1, Fin 3], [Fin 0, Fin 4 :: npfloat]])
   \<and> map (area_weighted_mean [[Fin 1, Fin 3], [Fin 0, Fin 4]]) [[[Fin 1, Fin 2], [Fin 3, Fin 4]]]
       = [Fin (23 / 8)]"
  using area_weighted_mean_formula[of "[[[Fin 1, Fin 2], [Fin 3, Fin 4]]]" "[[Fin 1, Fin 3], [Fin 0, Fin 4]]"]
  by (simp add: same_shape_def)

text \<open>
  C4 as stated, for every field, fails when a cell is missing: with the weights 1 and 3 and
  the samples NaN and 2 the reduction is 3/2, because the sum skips the NaN product, whereas
  the quotient of the plain sums of value times weight and of the weights is NaN.
\<close>

theorem area_weighted_mean_skips_missing_product:
  "area_weighted_mean [[Fin 1, Fin 3]] [[NaN, Fin 2]] = Fin (3 / 2)
   \<and> np_div (np_sum (map2 np_mul [NaN, Fin 2] [Fin 1, Fin 3])) (np_sum [Fin 1, Fin 3]) = NaN"
  by (simp add: area_weighted_mean_def total_area_def grid_mul_def nansum_def)

text \<open>
  C10.  When some cells of the field are NaN (the others finite), the numerator is the sum
  of value times weight over the cells that are not NaN, the denominator is the total
  weight of all cells, and the result is their finite quotient.
\<close>

theorem area_weighted_mean_missing_cells:
  assumes "same_shape f cell_area"
      and "list_all isfinite (concat cell_area)"
      and "list_all (\<lambda>v. isfinite v \<or> isnan v) (concat f)"
      and "(\<Sum>w\<leftarrow>concat cell_area. the_fin w) \<noteq> 0"
  shows "nansum (concat (grid_mul f cell_area)) =
           Fin (\<Sum>(v, w)\<leftarrow>filter (\<lambda>(v, w). \<not> isnan v) (zip (concat f) (concat cell_area)).
                  the_fin v * the_fin w)
       \<and> total_area cell_area = Fin (\<Sum>w\<leftarrow>concat cell_area. the_fin w)
       \<and> area_weighted_mean cell_area f =
           Fin ((\<Sum>(v, w)\<leftarrow>filter (\<lambda>(v, w). \<not> isnan v) (zip (concat f) (concat cell_area)).
                   the_fin v * the_fin w)
                / (\<Sum>w\<leftarrow>concat cell_area. the_fin w))"
proof (intro conjI)
  show "nansum (concat (grid_mul f cell_area)) =
      Fin (\<Sum>(v, w)\<leftarrow>filter (\<lambda>(v, w). \<not> isnan v) (zip (concat f) (concat cell_area)).
             the_fin v * the_fin w)"
    unfolding concat_grid_mul[OF assms(1)]
    by (rule nansum_products[OF same_shape_concat_length[OF assms(1)] assms(2) assms(3)])
  show "total_area cell_area = Fin (\<Sum>w\<leftarrow>concat cell_area. the_fin w)"
    unfolding total_area_def by (rule nansum_finite[OF assms(2)])
  show "area_weighted_mean cell_area f =
           Fin ((\<Sum>(v, w)\<leftarrow>filter (\<lambda>(v, w). \<not> isnan v) (zip (concat f) (concat cell_area)).
                   the_fin v * the_fin w)
                / (\<Sum>w\<leftarrow>concat cell_area. the_fin w))"
    by (rule area_weighted_mean_value[OF assms])
qed

theorem area_weighted_mean_missing_cells_witness:
  "same_shape [[NaN, Fin 2]] [[Fin 1, Fin 3 :: npfloat]]
   \<and> area_weighted_mean [[Fin 1, Fin 3]] [[NaN, Fin 2]] = Fin (3 / 2)
   \<and> area_weighted_mean [[Fin 1, Fin 3]] [[NaN, Fin 2]] \<noteq> NaN
   \<and> area_weighted_mean [[Fin 1, Fin 3]] [[NaN, Fin 2]] \<noteq> Fin 2"
  using area_weighted_mean_missing_cells[of "[[NaN, Fin 2]]" "[[Fin 1, Fin 3]]"]
  by (simp add: same_shape_def)

lemma uniform_products:
  "length vs = length ws \<Longrightarrow> list_all (\<lambda>w. w = Fin c) ws \<Longrightarrow>
   (\<Sum>(v, w)\<leftarrow>zip vs ws. the_fin v * the_fin w) = c * sum_list (map the_fin vs)"
  by (induction vs ws rule: list_induct2) (auto simp: algebra_simps)

lemma uniform_total:
  "list_all (\<lambda>w. w = Fin c) ws \<Longrightarrow> sum_list (map the_fin ws) = real (length ws) * c"
  by (induction ws) (auto simp: algebra_simps)

lemma uniform_finite: "list_all (\<lambda>w. w = Fin c) ws \<Longrightarrow> list_all isfinite ws"
  by (induction ws) auto

lemma nanmean_finite:
  assumes "list_all isfinite vs" "vs \<noteq> []"
  shows "nanmean vs = Fin (sum_list (map the_fin vs) / real (length vs))"
proof -
  have nn: "filter (\<lambda>v. \<not> isnan v) vs = vs"
    using assms(1) by (auto simp: list_all_iff isfinite_not_nan)
  have "np_sum vs = Fin (sum_list (map the_fin vs))"
    using finite_as_Fin[OF assms(1)] np_sum_Fin[of "map the_fin vs"] by simp
  then show ?thesis
    using assms(2) by (simp add: nanmean_def Let_def nn)
qed

text \<open>
  C6.  With one and the same positive weight in every cell, the weighted reduction of a
  finite field is its unweighted mean over the grid.
\<close>

theorem area_weighted_mean_uniform:
  assumes "same_shape f cell_area"
      and "list_all isfinite (concat f)"
      and "list_all (\<lambda>w. w = Fin c) (concat cell_area)"
      and "0 < c"
      and "concat f \<noteq> []"
  shows "area_weighted_mean cell_area f = nanmean (concat f)
       \<and> nanmean (concat f) = Fin (sum_list (map the_fin (concat f)) / real (length (concat f)))"
proof -
  let ?vs = "concat f" and ?ws = "concat cell_area"
  have len: "length ?vs = length ?ws"
    by (rule same_shape_concat_length[OF assms(1)])
  have "0 < length ?vs"
    using assms(5) length_greater_0_conv by blast
  then have npos: "0 < real (length ?ws)"
    using len by (metis of_nat_0_less_iff)
  have w: "list_all isfinite ?ws"
    by (rule uniform_finite[OF assms(3)])
  have v: "list_all (\<lambda>v. isfinite v \<or> isnan v) ?vs"
    using assms(2) by (simp add: list_all_iff)
  have tot: "sum_list (map the_fin ?ws) = real (length ?ws) * c"
    by (rule uniform_total[OF assms(3)])
  have nz: "sum_list (map the_fin ?ws) \<noteq> 0"
    using npos assms(4) by (simp add: tot)
  have all: "filter (\<lambda>(v, w). \<not> isnan v) (zip ?vs ?ws) = zip ?vs ?ws"
    by (rule filter_not_nan_finite[OF len assms(2)])
  have "area_weighted_mean cell_area f =
          Fin ((\<Sum>(v, w)\<leftarrow>zip ?vs ?ws. the_fin v * the_fin w) / sum_list (map the_fin ?ws))"
    using area_weighted_mean_value[OF assms(1) w v nz] by (simp add: all)
  also have "(\<Sum>(v, w)\<leftarrow>zip ?vs ?ws. the_fin v * the_fin w) = c * sum_list (map the_fin ?vs)"
    by (rule uniform_products[OF len assms(3)])
  also have "c * sum_list (map the_fin ?vs) / sum_list (map the_fin ?ws) =
             sum_list (map the_fin ?vs) / real (length ?vs)"
    using assms(4) npos by (simp add: tot len)
  finally have a: "area_weighted_mean cell_area f =
      Fin (sum_list (map the_fin ?vs) / real (length ?vs))" .
  have b: "nanmean ?vs = Fin (sum_list (map the_fin ?vs) / real (length ?vs))"
    by (rule nanmean_finite[OF assms(2) assms(5)])
  show ?thesis using a b by simp
qed

theorem area_weighted_mean_uniform_witness:
  "same_shape [[Fin 1, Fin 2], [Fin 6]] [[Fin 4, Fin 4], [Fin 4 :: npfloat]]
   \<and> area_weighted_mean [[Fin 4, Fin 4], [Fin 4]] [[Fin 1, Fin 2], [Fin 6]] = Fin 3
   \<and> nanmean (concat [[Fin 1, Fin 2], [Fin 6]]) = Fin 3"
  using area_weighted_mean_uniform[of "[[Fin 1, Fin 2], [Fin 6]]" "[[Fin 4, Fin 4], [Fin 4]]" 4]
  by (simp add: same_shape_def)

section \<open>The duration-weighted annual mean\<close>

lemma in_year_map: "in_year ts y (map g xs) = map g (in_year ts y xs)"
  unfolding in_year_def
proof (induction ts arbitrary: xs)
  case Nil
  then show ?case by simp
next
  case (Cons t ts)
  then show ?case by (cases xs) auto
qed

lemma in_year_zip:
  "length as = length bs \<Longrightarrow>
   in_year ts y (zip as bs) = zip (in_year ts y as) (in_year ts y bs)"
  unfolding in_year_def
proof (induction ts arbitrary: as bs)
  case Nil
  then show ?case by simp
next
  case (Cons t ts)
  show ?case
  proof (cases as)
    case Nil
    then show ?thesis by simp
  next
    case (Cons a as')
    then obtain b bs' where "bs = b # bs'" using Cons.prems by (cases bs) auto
    then show ?thesis using Cons Cons.IH[of as' bs'] Cons.prems by auto
  qed
qed

lemma in_year_length:
  "length as = length bs \<Longrightarrow> length (in_year ts y as) = length (in_year ts y bs)"
  unfolding in_year_def
proof (induction ts arbitrary: as bs)
  case Nil
  then show ?case by simp
next
  case (Cons t ts)
  show ?case
  proof (cases as)
    case Nil
    then show ?thesis using Cons.prems by simp
  next
    case (Cons a as')
    then obtain b bs' where "bs = b # bs'" using Cons.prems by (cases bs) auto
    then show ?thesis using Cons Cons.IH[of as' bs'] Cons.prems by auto
  qed
qed

lemma in_year_by_year:
  "in_year ts y (map (\<lambda>(t, d). h (year t) d) (zip ts dl)) = map (h y) (in_year ts y dl)"
  unfolding in_year_def
proof (induction ts arbitrary: dl)
  case Nil
  then show ?case by simp
next
  case (Cons t ts)
  then show ?case by (cases dl) auto
qed

lemma in_year_member:
  "(t, d) \<in> set (zip ts dl) \<Longrightarrow> d \<in> set (in_year ts (year t) dl)"
  unfolding in_year_def by force

lemma in_year_subset: "set (in_year ts y dl) \<subseteq> set dl"
  unfolding in_year_def by (auto dest: set_zip_rightD)

lemma sum_list_pos_int:
  fixes xs :: "int list"
  assumes "\<forall>x\<in>set xs. 0 < x" "xs \<noteq> []"
  shows "0 < sum_list xs"
  using assms
proof (induction xs)
  case Nil
  then show ?case by simp
next
  case (Cons x xs)
  then have "0 \<le> sum_list xs" by (cases xs) (auto simp: less_imp_le)
  moreover have "0 < x" using Cons.prems by simp
  ultimately show ?case by simp
qed

lemma year_total_pos:
  assumes "\<forall>d\<in>set dl. 0 < d" "(t, d) \<in> set (zip ts dl)"
  shows "0 < year_total ts dl (year t)"
proof -
  have "d \<in> set (in_year ts (year t) dl)" by (rule in_year_member[OF assms(2)])
  then have ne: "in_year ts (year t) dl \<noteq> []" by auto
  have "\<forall>x\<in>set (in_year ts (year t) dl). 0 < x"
    using assms(1) in_year_subset[of ts "year t" dl] by auto
  then show ?thesis
    unfolding year_total_def using ne by (rule sum_list_pos_int)
qed

lemma time_bound_diff_pos:
  "positive_durations ds \<Longrightarrow> \<forall>d\<in>set (time_bound_diff ds). 0 < d"
  unfolding positive_durations_def time_bound_diff_def
  by (auto simp: list_all_iff)

lemma length_time_bound_diff [simp]: "length (time_bound_diff ds) = length (time_bnds ds)"
  by (simp add: time_bound_diff_def)

lemma length_wgts [simp]:
  "length (wgts ds) = min (length (time ds)) (length (time_bnds ds))"
  by (simp add: wgts_def)

lemma wgts_finite:
  assumes "positive_durations ds"
  shows "wgts ds =
     map (\<lambda>(t, d). Fin (real_of_int d
                      / real_of_int (year_total (time ds) (time_bound_diff ds) (year t))))
       (zip (time ds) (time_bound_diff ds))"
  unfolding wgts_def
proof (intro map_cong refl)
  fix p assume p: "p \<in> set (zip (time ds) (time_bound_diff ds))"
  obtain t d where td: "p = (t, d)" by (cases p)
  have "0 < year_total (time ds) (time_bound_diff ds) (year t)"
    using year_total_pos[OF time_bound_diff_pos[OF assms]] p td by blast
  then show "(case p of (t, d) \<Rightarrow>
          np_div (Fin (real_of_int d))
            (Fin (real_of_int (year_total (time ds) (time_bound_diff ds) (year t))))) =
        (case p of (t, d) \<Rightarrow>
          Fin (real_of_int d / real_of_int (year_total (time ds) (time_bound_diff ds) (year t))))"
    by (simp add: td)
qed

lemma wgts_in_year:
  assumes "positive_durations ds"
  shows "in_year (time ds) y (wgts ds) =
     map (\<lambda>d. Fin (real_of_int d / real_of_int (year_total (time ds) (time_bound_diff ds) y)))
       (in_year (time ds) y (time_bound_diff ds))"
  unfolding wgts_finite[OF assms]
  by (rule in_year_by_year[of "time ds" y
        "\<lambda>yr d. Fin (real_of_int d / real_of_int (year_total (time ds) (time_bound_diff ds) yr))"])

lemma wgts_in_year_pos:
  assumes "positive_durations ds"
  shows "\<exists>rs. in_year (time ds) y (wgts ds) = map Fin rs \<and> (\<forall>r\<in>set rs. 0 < r)"
proof -
  let ?dl = "in_year (time ds) y (time_bound_diff ds)"
  let ?D = "year_total (time ds) (time_bound_diff ds) y"
  let ?rs = "map (\<lambda>d. real_of_int d / real_of_int ?D) ?dl"
  have eq: "in_year (time ds) y (wgts ds) = map Fin ?rs"
    by (simp add: wgts_in_year[OF assms] comp_def)
  have pos: "\<forall>d\<in>set ?dl. 0 < d"
    using time_bound_diff_pos[OF assms] in_year_subset[of "time ds" y "time_bound_diff ds"] by auto
  have "\<forall>r\<in>set ?rs. 0 < r"
  proof (cases "?dl = []")
    case True
    then show ?thesis by simp
  next
    case False
    then have "0 < ?D" unfolding year_total_def using pos by (intro sum_list_pos_int) auto
    then show ?thesis using pos by auto
  qed
  then show ?thesis using eq by blast
qed

lemma nansum_weighted:
  assumes "length vs = length rs" "\<forall>r\<in>set rs. 0 < r"
  shows "nansum (map2 np_mul vs (map Fin rs)) =
           np_sum (map (\<lambda>(v, w). np_mul v w)
                     (filter (\<lambda>(v, w). v \<noteq> NaN) (zip vs (map Fin rs))))"
  using assms
proof (induction vs rs rule: list_induct2)
  case Nil
  then show ?case by (simp add: nansum_def)
next
  case (Cons v vs r rs)
  then have ih: "nansum (map2 np_mul vs (map Fin rs)) =
           np_sum (map (\<lambda>(v, w). np_mul v w)
                     (filter (\<lambda>(v, w). v \<noteq> NaN) (zip vs (map Fin rs))))"
    by simp
  have r: "0 < r" using Cons.prems by simp
  show ?case
    using ih r by (cases v) (simp_all add: nansum_def signed_inf_def)
qed

lemma nansum_ones_weighted:
  assumes "length vs = length rs"
  shows "nansum (map2 np_mul (ones vs) (map Fin rs)) =
           np_sum (map snd (filter (\<lambda>(v, w). v \<noteq> NaN) (zip vs (map Fin rs))))"
  using assms
proof (induction vs rs rule: list_induct2)
  case Nil
  then show ?case by (simp add: nansum_def ones_def)
next
  case (Cons v vs r rs)
  then have ih: "nansum (map2 np_mul (ones vs) (map Fin rs)) =
           np_sum (map snd (filter (\<lambda>(v, w). v \<noteq> NaN) (zip vs (map Fin rs))))"
    by simp
  show ?case
    using ih by (cases v) (simp_all add: nansum_def ones_def)
qed

lemma ones_in_year: "in_year ts y (ones obs) = ones (in_year ts y obs)"
  unfolding ones_def by (rule in_year_map)

lemma map2_in_year:
  assumes "length as = length bs"
  shows "in_year ts y (map2 f as bs) = map2 f (in_year ts y as) (in_year ts y bs)"
  by (simp add: in_year_map in_year_zip[OF assms])

lemma length_resample_AS_sum [simp]:
  "length (resample_AS_sum ts vs) = length (resample_years ts)"
  by (simp add: resample_AS_sum_def)

lemma annual_ratio_nth:
  assumes "k < length (resample_years (time ds))"
  shows "annual_ratio ds obs ! k =
     np_div (bin_sum (in_year (time ds) (resample_years (time ds) ! k) (map2 np_mul obs (wgts ds))))
       (bin_sum (in_year (time ds) (resample_years (time ds) ! k) (map2 np_mul (ones obs) (wgts ds))))"
  using assms
  by (simp add: annual_ratio_def obs_sum_def ones_out_def resample_AS_sum_def)

lemma annual_ratio_value:
  assumes "length (time ds) = length (time_bnds ds)" "length obs = length (time ds)"
      and "positive_durations ds"
      and "k < length (resample_years (time ds))"
  shows "annual_ratio ds obs ! k =
     (let y = resample_years (time ds) ! k;
          valid = filter (\<lambda>(v, w). v \<noteq> NaN)
                    (zip (in_year (time ds) y obs) (in_year (time ds) y (wgts ds)))
      in np_div (np_sum (map (\<lambda>(v, w). np_mul v w) valid)) (np_sum (map snd valid)))"
proof -
  let ?ts = "time ds"
  let ?y = "resample_years ?ts ! k"
  let ?vs = "in_year ?ts ?y obs"
  obtain rs where rs: "in_year ?ts ?y (wgts ds) = map Fin rs" and pos: "\<forall>r\<in>set rs. 0 < r"
    using wgts_in_year_pos[OF assms(3), of ?y] by blast
  have lw: "length obs = length (wgts ds)"
    using assms(1,2) by simp
  have lo: "length (ones obs) = length (wgts ds)"
    using lw by (simp add: ones_def)
  have "length ?vs = length (in_year ?ts ?y (wgts ds))"
    by (rule in_year_length[OF lw])
  then have len: "length ?vs = length rs" by (simp add: rs)
  have num: "nansum (in_year ?ts ?y (map2 np_mul obs (wgts ds))) =
        np_sum (map (\<lambda>(v, w). np_mul v w)
                 (filter (\<lambda>(v, w). v \<noteq> NaN) (zip ?vs (map Fin rs))))"
    unfolding map2_in_year[OF lw] rs by (rule nansum_weighted[OF len pos])
  have den: "nansum (in_year ?ts ?y (map2 np_mul (ones obs) (wgts ds))) =
        np_sum (map snd (filter (\<lambda>(v, w). v \<noteq> NaN) (zip ?vs (map Fin rs))))"
    unfolding map2_in_year[OF lo] rs ones_in_year by (rule nansum_ones_weighted[OF len])
  have lo1: "length (ones ?vs) = length rs"
    using len by (simp add: ones_def)
  show ?thesis
  proof (cases "?vs = []")
    case True
    then have "rs = []" using len by simp
    then show ?thesis
      unfolding annual_ratio_nth[OF assms(4)] map2_in_year[OF lw] map2_in_year[OF lo]
        ones_in_year rs Let_def
      using True by (simp add: bin_sum_def ones_def)
  next
    case False
    then have a: "map2 np_mul ?vs (map Fin rs) \<noteq> []"
      using len by (cases ?vs; cases rs) auto
    from False have b: "map2 np_mul (ones ?vs) (map Fin rs) \<noteq> []"
      using len by (cases ?vs; cases rs) (auto simp: ones_def)
    have n: "bin_sum (in_year ?ts ?y (map2 np_mul obs (wgts ds))) =
        nansum (in_year ?ts ?y (map2 np_mul obs (wgts ds)))"
      unfolding map2_in_year[OF lw] rs using a by (simp add: bin_sum_def)
    have d: "bin_sum (in_year ?ts ?y (map2 np_mul (ones obs) (wgts ds))) =
        nansum (in_year ?ts ?y (map2 np_mul (ones obs) (wgts ds)))"
      unfolding map2_in_year[OF lo] rs ones_in_year using b by (simp add: bin_sum_def)
    show ?thesis
      unfolding annual_ratio_nth[OF assms(4)] n d num den Let_def rs ..
  qed
qed

lemma weighted_temporal_mean_nth:
  assumes "k < length (resample_years (time ds))"
  shows "weighted_temporal_mean ds ! k =
     (resample_years (time ds) ! k,
      nanmean (map (\<lambda>obs. annual_ratio ds obs ! k) (concat (air ds))))"
  using assms
  by (simp add: weighted_temporal_mean_def Let_def map_concat comp_def)

text \<open>
  C1, as amended.  With one interval of positive length per sample, the weight of a sample
  is its duration divided by the total duration of the samples of its calendar year.  At
  every grid cell and every year of the resample, the quotient \<open>obs_sum / ones_out\<close> is
  the sum of value times weight over the samples of the year that are not NaN, divided by
  the sum of the weights of those same samples; an infinite sample is not missing and
  stays in both sums.  The value returned for the year is the mean of these quotients over
  the grid cells.
\<close>

theorem weighted_temporal_mean_annual:
  assumes "length (time ds) = length (time_bnds ds)" "length obs = length (time ds)"
      and "positive_durations ds"
      and "k < length (resample_years (time ds))"
  shows "wgts ds =
           map (\<lambda>(t, d). Fin (real_of_int d
                            / real_of_int (year_total (time ds) (time_bound_diff ds) (year t))))
             (zip (time ds) (time_bound_diff ds))
       \<and> annual_ratio ds obs ! k =
           (let y = resample_years (time ds) ! k;
                valid = filter (\<lambda>(v, w). v \<noteq> NaN)
                          (zip (in_year (time ds) y obs) (in_year (time ds) y (wgts ds)))
            in np_div (np_sum (map (\<lambda>(v, w). np_mul v w) valid)) (np_sum (map snd valid)))
       \<and> weighted_temporal_mean ds ! k =
           (resample_years (time ds) ! k,
            nanmean (map (\<lambda>obs. annual_ratio ds obs ! k) (concat (air ds))))"
  using wgts_finite[OF assms(3)] annual_ratio_value[OF assms] weighted_temporal_mean_nth[OF assms(4)]
  by blast

theorem weighted_temporal_mean_annual_witness:
  "length (time \<lparr>time = [(2000, 1, 1), (2000, 2, 1), (2001, 1, 1)],
       time_bnds = [(0, 31), (31, 59), (366, 397)], air = [[[Fin 3, NaN, Fin 5]]]\<rparr>) = 3
   \<and> positive_durations \<lparr>time = [(2000, 1, 1), (2000, 2, 1), (2001, 1, 1)],
       time_bnds = [(0, 31), (31, 59), (366, 397)], air = [[[Fin 3, NaN, Fin 5]]]\<rparr>
   \<and> annual_ratio \<lparr>time = [(2000, 1, 1), (2000, 2, 1), (2001, 1, 1)],
       time_bnds = [(0, 31), (31, 59), (366, 397)], air = [[[Fin 3, NaN, Fin 5]]]\<rparr>
       [Fin 3, NaN, Fin 5] ! 0 = Fin 3
   \<and> weighted_temporal_mean \<lparr>time = [(2000, 1, 1), (2000, 2, 1), (2001, 1, 1)],
       time_bnds = [(0, 31), (31, 59), (366, 397)], air = [[[Fin 3, NaN, Fin 5]]]\<rparr> ! 0
       = (2000, Fin 3)"
  using weighted_temporal_mean_annual[of
      "\<lparr>time = [(2000, 1, 1), (2000, 2, 1), (2001, 1, 1)],
        time_bnds = [(0, 31), (31, 59), (366, 397)], air = [[[Fin 3, NaN, Fin 5]]]\<rparr>"
      "[Fin 3, NaN, Fin 5]" 0]
  by (simp add: positive_durations_def resample_years_def year_def in_year_def
      time_bound_diff_def year_total_def nanmean_def)

text \<open>
  C1 as stated fails for a non-finite sample that is not NaN: with the samples inf and 1 in
  one year, the annual value is inf, whereas leaving the infinite sample out of both sums
  would give 1.
\<close>

theorem weighted_temporal_mean_keeps_infinite_sample:
  "annual_ratio \<lparr>time = [(2000, 1, 1), (2000, 2, 1)], time_bnds = [(0, 31), (31, 59)],
       air = [[[PInf, Fin 1]]]\<rparr> [PInf, Fin 1] = [PInf]
   \<and> weighted_temporal_mean \<lparr>time = [(2000, 1, 1), (2000, 2, 1)],
       time_bnds = [(0, 31), (31, 59)], air = [[[PInf, Fin 1]]]\<rparr> = [(2000, PInf)]
   \<and> np_div (np_sum [np_mul (Fin 1) (Fin (28 / 59))]) (np_sum [Fin (28 / 59)]) = Fin 1"
  by (simp add: weighted_temporal_mean_def annual_ratio_def obs_sum_def ones_out_def
      resample_AS_sum_def bin_sum_def resample_years_def year_def in_year_def wgts_def ones_def
      time_bound_diff_def year_total_def nansum_def nanmean_def signed_inf_def)

lemma np_sum_products_finite:
  "length vs = length rs \<Longrightarrow> list_all isfinite vs \<Longrightarrow>
   np_sum (map (\<lambda>(v, w). np_mul v w) (zip vs (map Fin rs))) =
     Fin (\<Sum>(v, r)\<leftarrow>zip vs rs. the_fin v * r)"
proof (induction vs rs rule: list_induct2)
  case Nil
  then show ?case by simp
next
  case (Cons v vs r rs)
  then show ?case by (cases v) auto
qed

lemma sum_list_fractions:
  fixes D :: real
  shows "sum_list (map (\<lambda>d. real_of_int d / D) dl) = real_of_int (sum_list dl) / D"
  by (induction dl) (auto simp: add_divide_distrib)

lemma zip_map_fractions:
  "(\<Sum>(v, r)\<leftarrow>zip vs (map g dl). the_fin v * r) = (\<Sum>(v, d)\<leftarrow>zip vs dl. the_fin v * g d)"
  by (simp add: zip_map2 comp_def case_prod_unfold)

text \<open>
  C7.  When no sample of the cell is missing (all are finite), the weights of the samples
  of a year add up to one, so the denominator \<open>ones_out\<close> is 1 and the annual value is
  the numerator alone: the sum of each value times its share of the year's total duration.
\<close>

theorem weighted_temporal_mean_no_missing:
  assumes "length (time ds) = length (time_bnds ds)" "length obs = length (time ds)"
      and "positive_durations ds"
      and "k < length (resample_years (time ds))"
      and "list_all isfinite obs"
      and "in_year (time ds) (resample_years (time ds) ! k) obs \<noteq> []"
  shows "ones_out ds obs ! k = Fin 1
       \<and> annual_ratio ds obs ! k = obs_sum ds obs ! k
       \<and> annual_ratio ds obs ! k =
           (let y = resample_years (time ds) ! k
            in Fin (\<Sum>(v, d)\<leftarrow>zip (in_year (time ds) y obs) (in_year (time ds) y (time_bound_diff ds)).
                      the_fin v * (real_of_int d
                                   / real_of_int (year_total (time ds) (time_bound_diff ds) y))))"
proof -
  let ?ts = "time ds"
  let ?y = "resample_years ?ts ! k"
  let ?vs = "in_year ?ts ?y obs"
  let ?dl = "in_year ?ts ?y (time_bound_diff ds)"
  let ?D = "real_of_int (year_total ?ts (time_bound_diff ds) ?y)"
  let ?rs = "map (\<lambda>d. real_of_int d / ?D) ?dl"
  have rs: "in_year ?ts ?y (wgts ds) = map Fin ?rs"
    by (simp add: wgts_in_year[OF assms(3)] comp_def)
  have lw: "length obs = length (wgts ds)" using assms(1,2) by simp
  have ld: "length obs = length (time_bound_diff ds)" using assms(1,2) by simp
  have lo: "length (ones obs) = length (wgts ds)" using lw by (simp add: ones_def)
  have len: "length ?vs = length ?rs"
    using in_year_length[OF ld, of ?ts ?y] by simp
  have fin: "list_all isfinite ?vs"
    using assms(5) in_year_subset[of ?ts ?y obs] by (auto simp: list_all_iff)
  have all: "filter (\<lambda>(v, w). v \<noteq> NaN) (zip ?vs (map Fin ?rs)) = zip ?vs (map Fin ?rs)"
    using fin by (auto simp: filter_id_conv list_all_iff dest!: set_zip_leftD)
  have ne: "?dl \<noteq> []"
    using assms(6) len by auto
  have pos: "\<forall>d\<in>set ?dl. 0 < d"
    using time_bound_diff_pos[OF assms(3)] in_year_subset[of ?ts ?y "time_bound_diff ds"] by auto
  have "0 < sum_list ?dl" using pos ne by (rule sum_list_pos_int)
  then have Dpos: "0 < ?D" by (simp add: year_total_def)
  have total: "sum_list ?rs = 1"
    using Dpos by (simp add: sum_list_fractions year_total_def)
  have den: "ones_out ds obs ! k = Fin 1"
  proof -
    have e: "in_year ?ts ?y (map2 np_mul (ones obs) (wgts ds)) =
        map2 np_mul (ones ?vs) (map Fin ?rs)"
      by (simp only: map2_in_year[OF lo] rs ones_in_year)
    have "length (map2 np_mul (ones ?vs) (map Fin ?rs)) = length ?vs"
      using len by (simp add: ones_def)
    then have n: "map2 np_mul (ones ?vs) (map Fin ?rs) \<noteq> []"
      using assms(6) by (metis length_0_conv)
    have "ones_out ds obs ! k = bin_sum (in_year ?ts ?y (map2 np_mul (ones obs) (wgts ds)))"
      using assms(4) by (simp add: ones_out_def resample_AS_sum_def)
    also have "\<dots> = nansum (map2 np_mul (ones ?vs) (map Fin ?rs))"
      unfolding e bin_sum_def using n by (simp only: if_False)
    also have "\<dots> = np_sum (map snd (zip ?vs (map Fin ?rs)))"
      unfolding nansum_ones_weighted[OF len] all ..
    also have "map snd (zip ?vs (map Fin ?rs)) = map Fin ?rs"
      using len by (simp del: map_map)
    also have "np_sum (map Fin ?rs) = Fin 1"
      unfolding np_sum_Fin total ..
    finally show ?thesis .
  qed
  have num: "obs_sum ds obs ! k =
      Fin (\<Sum>(v, d)\<leftarrow>zip ?vs ?dl. the_fin v * (real_of_int d / ?D))"
  proof -
    have pos_r: "\<forall>r\<in>set ?rs. 0 < r" using pos Dpos by auto
    have e: "in_year ?ts ?y (map2 np_mul obs (wgts ds)) = map2 np_mul ?vs (map Fin ?rs)"
      by (simp only: map2_in_year[OF lw] rs)
    have "length (map2 np_mul ?vs (map Fin ?rs)) = length ?vs"
      using len by simp
    then have n: "map2 np_mul ?vs (map Fin ?rs) \<noteq> []"
      using assms(6) by (metis length_0_conv)
    have "obs_sum ds obs ! k = bin_sum (in_year ?ts ?y (map2 np_mul obs (wgts ds)))"
      using assms(4) by (simp add: obs_sum_def resample_AS_sum_def)
    also have "\<dots> = nansum (map2 np_mul ?vs (map Fin ?rs))"
      unfolding e bin_sum_def using n by (simp only: if_False)
    also have "\<dots> = np_sum (map (\<lambda>(v, w). np_mul v w) (zip ?vs (map Fin ?rs)))"
      unfolding nansum_weighted[OF len pos_r] all ..
    also have "\<dots> = Fin (\<Sum>(v, r)\<leftarrow>zip ?vs ?rs. the_fin v * r)"
      by (rule np_sum_products_finite[OF len fin])
    also have "(\<Sum>(v, r)\<leftarrow>zip ?vs ?rs. the_fin v * r) =
               (\<Sum>(v, d)\<leftarrow>zip ?vs ?dl. the_fin v * (real_of_int d / ?D))"
      by (rule zip_map_fractions)
    finally show ?thesis .
  qed
  have ratio: "annual_ratio ds obs ! k = np_div (obs_sum ds obs ! k) (ones_out ds obs ! k)"
    using assms(4) by (simp add: annual_ratio_def obs_sum_def ones_out_def)
  show ?thesis
    unfolding Let_def using ratio den num by simp
qed


theorem weighted_temporal_mean_no_missing_witness:
  "list_all isfinite [Fin 3, Fin 62, Fin 5]
   \<and> positive_durations \<lparr>time = [(2000, 1, 1), (2000, 2, 1), (2001, 1, 1)],
       time_bnds = [(0, 31), (31, 59), (366, 397)], air = [[[Fin 3, Fin 62, Fin 5]]]\<rparr>
   \<and> ones_out \<lparr>time = [(2000, 1, 1), (2000, 2, 1), (2001, 1, 1)],
       time_bnds = [(0, 31), (31, 59), (366, 397)], air = [[[Fin 3, Fin 62, Fin 5]]]\<rparr>
       [Fin 3, Fin 62, Fin 5] ! 0 = Fin 1
   \<and> annual_ratio \<lparr>time = [(2000, 1, 1), (2000, 2, 1), (2001, 1, 1)],
       time_bnds = [(0, 31), (31, 59), (366, 397)], air = [[[Fin 3, Fin 62, Fin 5]]]\<rparr>
       [Fin 3, Fin 62, Fin 5] ! 0 = Fin 31"
proof -
  let ?ds = "\<lparr>time = [(2000, 1, 1), (2000, 2, 1), (2001, 1, 1)],
        time_bnds = [(0, 31), (31, 59), (366, 397)], air = [[[Fin 3, Fin 62, Fin 5]]]\<rparr>"
  have pd: "positive_durations ?ds"
    by (simp add: positive_durations_def)
  have a: "ones_out ?ds [Fin 3, Fin 62, Fin 5] ! 0 = Fin 1"
    using weighted_temporal_mean_no_missing[of ?ds "[Fin 3, Fin 62, Fin 5]" 0, THEN conjunct1]
    by (simp add: positive_durations_def resample_years_def year_def in_year_def)
  have b: "annual_ratio ?ds [Fin 3, Fin 62, Fin 5] ! 0 = Fin 31"
    using weighted_temporal_mean_no_missing[of ?ds "[Fin 3, Fin 62, Fin 5]" 0,
        THEN conjunct2, THEN conjunct2]
    by (simp add: positive_durations_def resample_years_def year_def in_year_def
        time_bound_diff_def year_total_def)
  show ?thesis using pd a b by simp
qed

section \<open>The winter seasons\<close>

lemma december_bins_from_dec:
  "filter (\<lambda>q. month q = 12)
     (filter (\<lambda>q. 1979 \<le> year q \<and> year q \<le> 2012)
        (quarter_range (1978, 12, 1) (2012, 12, 1))) = map (\<lambda>y. (y, 12, 1)) [1979..2012]"
  by code_simp

lemma december_bins_from_mar:
  "filter (\<lambda>q. month q = 12)
     (filter (\<lambda>q. 1979 \<le> year q \<and> year q \<le> 2012)
        (quarter_range (1979, 3, 1) (2012, 12, 1))) = map (\<lambda>y. (y, 12, 1)) [1979..2012]"
  by code_simp

lemma december_bins_from_jun:
  "filter (\<lambda>q. month q = 12)
     (filter (\<lambda>q. 1979 \<le> year q \<and> year q \<le> 2012)
        (quarter_range (1979, 6, 1) (2012, 12, 1))) = map (\<lambda>y. (y, 12, 1)) [1979..2012]"
  by code_simp

lemma december_bins_from_sep:
  "filter (\<lambda>q. month q = 12)
     (filter (\<lambda>q. 1979 \<le> year q \<and> year q \<le> 2012)
        (quarter_range (1979, 9, 1) (2012, 12, 1))) = map (\<lambda>y. (y, 12, 1)) [1979..2012]"
  by code_simp

lemma length_years_1979_2012: "length [1979..2012::int] = 34"
  by code_simp

lemma labels_of_filtered_bins:
  "map fst (filter (\<lambda>(q, v). P q) (map (\<lambda>q. (q, F q)) qs)) = filter P qs"
  by (induction qs) auto

lemma winter_seasons_labels:
  assumes "sel_years 1979 2012 t \<noteq> []"
  shows "map fst (winter_seasons t) =
     filter (\<lambda>q. month q = 12)
       (filter (\<lambda>q. 1979 \<le> year q \<and> year q \<le> 2012)
          (quarter_range (qs_dec_start (fst (hd (sel_years 1979 2012 t))))
             (qs_dec_start (fst (last (sel_years 1979 2012 t))))))"
proof -
  obtain s ss where s: "sel_years 1979 2012 t = s # ss"
    using assms by (cases "sel_years 1979 2012 t") auto
  show ?thesis
    unfolding winter_seasons_def seasons_def resample_QS_DEC_mean_def s
    unfolding sel_years_def
    by (simp only: list.case labels_of_filtered_bins filter_map comp_def
          filter_filter case_prod_conv map_map fst_conv)
       (simp add: labels_of_filtered_bins[symmetric] comp_def)
qed

text \<open>
  C5.  When the samples selected from 1979 through 2012 start in 1979 before December and
  end in December 2012, the December-anchored quarters kept as winter seasons are the 34
  quarters that start on 1 December of 1979, ..., 2012; the count is the length of the
  result.
\<close>

theorem winter_seasons_count:
  assumes "sel_years 1979 2012 t \<noteq> []"
      and "year (fst (hd (sel_years 1979 2012 t))) = 1979"
      and "month (fst (hd (sel_years 1979 2012 t))) \<le> 11"
      and "year (fst (last (sel_years 1979 2012 t))) = 2012"
      and "month (fst (last (sel_years 1979 2012 t))) = 12"
  shows "length (winter_seasons t) = 34
       \<and> map fst (winter_seasons t) = map (\<lambda>y. (y, 12, 1)) [1979..2012]"
proof -
  let ?first = "fst (hd (sel_years 1979 2012 t))"
  let ?last = "fst (last (sel_years 1979 2012 t))"
  have b: "qs_dec_start ?last = (2012, 12, 1)"
    using assms(4,5) by (simp add: qs_dec_start_def)
  have a: "qs_dec_start ?first = (1978, 12, 1) \<or> qs_dec_start ?first = (1979, 3, 1)
         \<or> qs_dec_start ?first = (1979, 6, 1) \<or> qs_dec_start ?first = (1979, 9, 1)"
    using assms(2,3) by (simp add: qs_dec_start_def)
  have labels: "map fst (winter_seasons t) = map (\<lambda>y. (y, 12, 1)) [1979..2012]"
    unfolding winter_seasons_labels[OF assms(1)] b
    using a december_bins_from_dec december_bins_from_mar december_bins_from_jun
      december_bins_from_sep
    by presburger
  have "length (winter_seasons t) = length (map fst (winter_seasons t))"
    by simp
  also have "\<dots> = 34"
    unfolding labels by (simp add: length_years_1979_2012)
  finally show ?thesis using labels by simp
qed

theorem winter_seasons_count_witness:
  "length (winter_seasons [((1979, 1, 1), Fin 1), ((1979, 1, 2), Fin 4), ((2012, 12, 31), Fin 2)]) = 34
   \<and> length (winter_seasons [((1978, 12, 31), Fin 0), ((1979, 4, 15), Fin 1), ((2012, 12, 1), Fin 2),
        ((2013, 1, 1), Fin 5)]) = 34"
proof -
  have a: "length (winter_seasons
      [((1979, 1, 1), Fin 1), ((1979, 1, 2), Fin 4), ((2012, 12, 31), Fin 2)]) = 34"
    using winter_seasons_count[of
        "[((1979, 1, 1), Fin 1), ((1979, 1, 2), Fin 4), ((2012, 12, 31), Fin 2)]"]
    by (simp add: sel_years_def year_def month_def)
  have b: "length (winter_seasons
      [((1978, 12, 31), Fin 0), ((1979, 4, 15), Fin 1), ((2012, 12, 1), Fin 2),
       ((2013, 1, 1), Fin 5)]) = 34"
    using winter_seasons_count[of
        "[((1978, 12, 31), Fin 0), ((1979, 4, 15), Fin 1), ((2012, 12, 1), Fin 2),
          ((2013, 1, 1), Fin 5)]"]
    by (simp add: sel_years_def year_def month_def)
  show ?thesis using a b by simp
qed

end
